theory Spec2Isabelle
  imports Main "HOL-Library.Word"
begin

section \<open>The IPI multiplexer: data model\<close>

text \<open>
  The driver multiplexes \<open>IPI_MUX_NR_IRQS\<close> virtual IPIs over one parent IPI. Its state
  is four file-scope variables: \<open>ipi_mux_parent_virq\<close>, \<open>ipi_mux_domain\<close>,
  \<open>ipi_mux_ops\<close> and the per-CPU word \<open>ipi_mux_bits\<close>. The word is an
  \<open>unsigned long\<close>, taken here at 64 bits. A CPU mask is the bitmap it is in C, one
  flag per possible CPU. A function pointer of the backend is the identity of the function
  it points to; a \<open>NULL\<close> pointer is \<open>None\<close>.
\<close>

type_synonym ulong = "64 word"
type_synonym cpumask = "bool list"
type_synonym fnptr = nat

definition BITS_PER_LONG :: nat where
  "BITS_PER_LONG = 64"

text \<open>
  Modelled from the spec: \<open>struct ipi_mux_ops\<close> is declared in a header that is not
  with the driver's file. The spec has the backend expose a send, which is mandatory,
  and a clear, which is optional. \<open>IPI_MUX_NR_IRQS\<close> comes from the same header: it is
  a parameter \<open>nr_irqs\<close> of every function that uses it.
\<close>

record ipi_mux_ops_t =
  ipi_mux_clear :: "fnptr option"
  ipi_mux_send :: "fnptr option"

text \<open>
  Modelled from the spec: the interrupt domain is a structure of the host's interrupt
  framework, which the spec has own a mapping from logical-line index to virtual
  interrupt. An interrupt domain, as far as this driver uses one: its size and the reverse map from
  hardware interrupt number to Linux interrupt number. Domains live in the kernel heap:
  a \<open>struct irq_domain *\<close> is an address, and the state maps the addresses in use to
  the domains there.
\<close>

type_synonym domain_ptr = nat

record irq_domain =
  revmap_size :: nat
  revmap :: "nat \<rightharpoonup> nat"

record irq_fwspec =
  param_count :: nat
  param :: "nat list"

text \<open>
  Every call that leaves the driver (barriers, atomic operations on the per-CPU word,
  backend calls, dispatch into the interrupt core, kernel messages, registrations) is
  recorded in a log, in program order. \<open>Ev_set_bit nr cpu\<close> is the bit-set of bit \<open>nr\<close>
  in the word of \<open>cpu\<close>; \<open>Ev_xchg cpu irqs\<close> the exchange on \<open>cpu\<close> that returned
  \<open>irqs\<close>; \<open>Ev_ipi_mux_send f virq mask\<close> and \<open>Ev_ipi_mux_clear f virq\<close> the calls of
  the backend function \<open>f\<close>; \<open>Ev_generic_handle_domain_irq cpu hwirq found\<close> the
  dispatch of \<open>hwirq\<close> on \<open>cpu\<close>, with the Linux interrupt whose handler ran, or
  \<open>None\<close> when there was no mapping; \<open>Ev_enable_percpu_irq cpu irq type\<close> and
  \<open>Ev_disable_percpu_irq cpu irq\<close> the calls made on \<open>cpu\<close>.
\<close>

datatype event =
    Ev_smp_mb__before_atomic
  | Ev_set_bit nat nat
  | Ev_smp_mb__after_atomic
  | Ev_ipi_mux_send fnptr "32 word" cpumask
  | Ev_ipi_mux_clear fnptr "32 word"
  | Ev_smp_mb
  | Ev_xchg nat ulong
  | Ev_generic_handle_domain_irq nat nat "nat option"
  | Ev_pr_warn_ratelimited nat
  | Ev_pr_err string
  | Ev_chained_irq_enter nat
  | Ev_chained_irq_exit nat
  | Ev_irq_set_chained_handler "32 word"
  | Ev_cpuhp_setup_state string
  | Ev_enable_percpu_irq nat "32 word" nat
  | Ev_disable_percpu_irq nat "32 word"

text \<open>The two CPU hotplug callbacks of the driver, as the hotplug core stores them.\<close>

datatype hook = Hook_ipi_mux_starting_cpu | Hook_ipi_mux_dying_cpu

text \<open>
  The state: the driver's four variables, then the part of the host interrupt subsystem
  that the driver changes (the registered domains, the parent interrupts whose chained
  handler is \<open>ipi_mux_handler\<close>, the registered CPU hotplug states with their startup
  and teardown callbacks, the per-CPU enable state and the trigger type of each
  interrupt), then the log.
\<close>

record kstate =
  ipi_mux_parent_virq :: "32 word"
  ipi_mux_domain :: "domain_ptr option"
  ipi_mux_ops :: "ipi_mux_ops_t option"
  ipi_mux_bits :: "nat \<Rightarrow> ulong"
  irq_domains :: "domain_ptr \<rightharpoonup> irq_domain"
  chained_handler :: "32 word \<Rightarrow> bool"
  cpuhp_states :: "(string \<times> hook \<times> hook) list"
  percpu_irq_enabled :: "nat \<Rightarrow> 32 word \<Rightarrow> nat option"
  irq_trigger_type :: "32 word \<Rightarrow> nat"
  klog :: "event list"

definition emit :: "event \<Rightarrow> kstate \<Rightarrow> kstate" where
  "emit e s = s\<lparr>klog := klog s @ [e]\<rparr>"

section \<open>Kernel primitives used by the driver\<close>

text \<open>
  The barriers, the atomic operations, the iteration macros and the calls into the
  interrupt core and the hotplug core are kernel code that is not with the driver's
  file. Each is modelled here by what the spec has it do for the driver, and by the
  kernel's own contract where the spec is silent.
\<close>

text \<open>
  Modelled from the spec: the barrier that the send path issues before its atomic
  bit-sets. The model records that it was issued, and where.
\<close>

definition smp_mb__before_atomic :: "kstate \<Rightarrow> kstate" where
  "smp_mb__before_atomic s = emit Ev_smp_mb__before_atomic s"

text \<open>Modelled from the spec: the barrier that the send path issues after them.\<close>

definition smp_mb__after_atomic :: "kstate \<Rightarrow> kstate" where
  "smp_mb__after_atomic s = emit Ev_smp_mb__after_atomic s"

text \<open>Modelled from the spec: the full barrier of the drain path.\<close>

definition smp_mb :: "kstate \<Rightarrow> kstate" where
  "smp_mb s = emit Ev_smp_mb s"

text \<open>
  Modelled from the spec: the atomic bit-set of a line in the pending bitmask of a CPU,
  \<open>set_bit(nr, per_cpu_ptr(&ipi_mux_bits, cpu))\<close>: an atomic OR of bit \<open>nr\<close> into the
  word of \<open>cpu\<close>. With \<open>nr\<close> beyond the word the C writes outside the variable; the
  model stops there with \<open>None\<close>.
\<close>

definition set_bit_percpu :: "nat \<Rightarrow> nat \<Rightarrow> kstate \<Rightarrow> kstate option" where
  "set_bit_percpu nr cpu s =
     (if nr < BITS_PER_LONG
      then Some (emit (Ev_set_bit nr cpu)
                  (s\<lparr>ipi_mux_bits := (ipi_mux_bits s)(cpu := set_bit nr (ipi_mux_bits s cpu))\<rparr>))
      else None)"

text \<open>
  Modelled from the spec: the atomic exchange of the local pending bitmask, which
  returns the snapshot. \<open>xchg(this_cpu_ptr(&ipi_mux_bits), v)\<close>: store \<open>v\<close>, return
  the old word.
\<close>

definition xchg_percpu :: "nat \<Rightarrow> ulong \<Rightarrow> kstate \<Rightarrow> ulong \<times> kstate" where
  "xchg_percpu this_cpu v s =
     (ipi_mux_bits s this_cpu,
      emit (Ev_xchg this_cpu (ipi_mux_bits s this_cpu))
        (s\<lparr>ipi_mux_bits := (ipi_mux_bits s)(this_cpu := v)\<rparr>))"

text \<open>
  Modelled from the spec: the iteration over every CPU of the target set.
  \<open>for_each_cpu(cpu, mask)\<close> visits the CPUs whose flag is set, in ascending order.
\<close>

definition for_each_cpu :: "cpumask \<Rightarrow> nat list" where
  "for_each_cpu msk = filter (\<lambda>cpu. msk ! cpu) [0..<length msk]"

text \<open>
  Modelled from the spec: the iteration over each set bit of the snapshot. The kernel's
  \<open>for_each_set_bit\<close> is a loop over \<open>find_next_bit\<close>, and the order of the visit,
  on which the spec is silent, is the one that \<open>find_next_bit\<close> gives by its contract.
  \<open>find_next_bit(addr, nbits, offset)\<close>: the index of the first set bit at or after
  \<open>offset\<close>, or \<open>nbits\<close> when there is none.
\<close>

function find_next_bit :: "ulong \<Rightarrow> nat \<Rightarrow> nat \<Rightarrow> nat" where
  "find_next_bit addr nbits offset =
     (if nbits \<le> offset then nbits
      else if bit addr offset then offset
      else find_next_bit addr nbits (Suc offset))"
  by pat_completeness auto
termination
  by (relation "measure (\<lambda>(addr, nbits, offset). nbits - offset)") auto

declare find_next_bit.simps [simp del]

definition EINVAL :: int where
  "EINVAL = 22"

text \<open>
  Modelled from the spec: the lookup of the virtual line that a logical-line index is
  mapped to, in the domain behind a pointer.
\<close>

definition irq_resolve_mapping :: "domain_ptr option \<Rightarrow> nat \<Rightarrow> kstate \<Rightarrow> nat option" where
  "irq_resolve_mapping domain hwirq s =
     (case domain of
        None \<Rightarrow> None
      | Some p \<Rightarrow> (case irq_domains s p of None \<Rightarrow> None | Some d \<Rightarrow> revmap d hwirq))"

text \<open>
  Modelled from the spec: the dispatch callback into the interrupt subsystem, which
  given a logical-line index invokes its registered handler and fails on an unmapped
  index. \<open>generic_handle_domain_irq(domain, hwirq)\<close>: look \<open>hwirq\<close> up in the domain
  and run the handler of the interrupt found; \<open>-EINVAL\<close> when there is no mapping. The
  log keeps the call together with the interrupt it resolved to.
\<close>

definition generic_handle_domain_irq ::
  "domain_ptr option \<Rightarrow> nat \<Rightarrow> nat \<Rightarrow> kstate \<Rightarrow> int \<times> kstate" where
  "generic_handle_domain_irq domain this_cpu hwirq s =
     (let found = irq_resolve_mapping domain hwirq s
      in (if found = None then - EINVAL else 0,
          emit (Ev_generic_handle_domain_irq this_cpu hwirq found) s))"

text \<open>
  Modelled from the spec: the rate-limited warning. The model records the call; whether
  the rate limit lets the line through is the kernel's matter.
\<close>

definition pr_warn_ratelimited :: "nat \<Rightarrow> kstate \<Rightarrow> kstate" where
  "pr_warn_ratelimited hwirq s = emit (Ev_pr_warn_ratelimited hwirq) s"

text \<open>Modelled from the spec: the message at error severity.\<close>

definition pr_err :: "string \<Rightarrow> kstate \<Rightarrow> kstate" where
  "pr_err msg s = emit (Ev_pr_err msg) s"

section \<open>The send path\<close>

text \<open>
  \<open>ipi_mux_send_mask\<close>: barrier, set the bit of \<open>d->hwirq\<close> for each CPU of the mask,
  barrier, then the parent IPI through \<open>ipi_mux_ops->ipi_mux_send\<close>. The loop is the
  recursion over the CPUs that \<open>for_each_cpu\<close> visits. A \<open>NULL\<close> \<open>ipi_mux_ops\<close> or
  \<open>ipi_mux_send\<close> is a dereference of \<open>NULL\<close>: \<open>None\<close>.
\<close>

fun ipi_mux_send_mask_loop :: "nat \<Rightarrow> nat list \<Rightarrow> kstate \<Rightarrow> kstate option" where
  "ipi_mux_send_mask_loop hwirq [] s = Some s"
| "ipi_mux_send_mask_loop hwirq (cpu # cpus) s =
     (case set_bit_percpu hwirq cpu s of
        None \<Rightarrow> None
      | Some s' \<Rightarrow> ipi_mux_send_mask_loop hwirq cpus s')"

definition call_ipi_mux_send :: "cpumask \<Rightarrow> kstate \<Rightarrow> kstate option" where
  "call_ipi_mux_send msk s =
     (case ipi_mux_ops s of
        None \<Rightarrow> None
      | Some ops \<Rightarrow>
          (case ipi_mux_send ops of
             None \<Rightarrow> None
           | Some f \<Rightarrow> Some (emit (Ev_ipi_mux_send f (ipi_mux_parent_virq s) msk) s)))"

definition ipi_mux_send_mask :: "nat \<Rightarrow> cpumask \<Rightarrow> kstate \<Rightarrow> kstate option" where
  "ipi_mux_send_mask hwirq msk s =
     (case ipi_mux_send_mask_loop hwirq (for_each_cpu msk) (smp_mb__before_atomic s) of
        None \<Rightarrow> None
      | Some s' \<Rightarrow> call_ipi_mux_send msk (smp_mb__after_atomic s'))"

section \<open>The drain path\<close>

text \<open>
  The body of the \<open>for_each_set_bit\<close> loop of \<open>ipi_mux_process\<close>: dispatch one hardware
  interrupt number and warn when the dispatch fails. The loop goes on either way.
\<close>

definition ipi_mux_process_body :: "nat \<Rightarrow> nat \<Rightarrow> kstate \<Rightarrow> kstate" where
  "ipi_mux_process_body this_cpu hwirq s =
     (let (err, s') = generic_handle_domain_irq (ipi_mux_domain s) this_cpu hwirq s
      in if err \<noteq> 0 then pr_warn_ratelimited hwirq s' else s')"

function ipi_mux_process_loop :: "nat \<Rightarrow> ulong \<Rightarrow> nat \<Rightarrow> nat \<Rightarrow> kstate \<Rightarrow> kstate" where
  "ipi_mux_process_loop this_cpu irqs nbits hwirq s =
     (if hwirq < nbits
      then ipi_mux_process_loop this_cpu irqs nbits (find_next_bit irqs nbits (hwirq + 1))
             (ipi_mux_process_body this_cpu hwirq s)
      else s)"
  by pat_completeness auto
termination
proof (relation "measure (\<lambda>(this_cpu, irqs, nbits, hwirq, s). nbits - hwirq)")
  show "wf (measure (\<lambda>(this_cpu, irqs, nbits, hwirq, s). nbits - hwirq))"
    by simp
next
  fix this_cpu :: nat and irqs :: ulong and nbits hwirq :: nat and s :: kstate
  assume less: "hwirq < nbits"
  have ge: "offset \<le> n \<Longrightarrow> offset \<le> find_next_bit addr n offset" for addr n offset
  proof (induction addr n offset rule: find_next_bit.induct)
    case (1 addr n offset)
    show ?case
    proof (cases "n \<le> offset \<or> bit addr offset")
      case True
      with "1.prems" show ?thesis
        by (auto simp: find_next_bit.simps [of addr n offset])
    next
      case False
      with "1.IH" have "Suc offset \<le> find_next_bit addr n (Suc offset)"
        by simp
      with False show ?thesis
        by (simp add: find_next_bit.simps [of addr n offset])
    qed
  qed
  from less have "hwirq + 1 \<le> find_next_bit irqs nbits (hwirq + 1)"
    by (intro ge) simp
  with less
  show "((this_cpu, irqs, nbits, find_next_bit irqs nbits (hwirq + 1),
          ipi_mux_process_body this_cpu hwirq s),
         (this_cpu, irqs, nbits, hwirq, s))
        \<in> measure (\<lambda>(this_cpu, irqs, nbits, hwirq, s). nbits - hwirq)"
    by simp
qed

declare ipi_mux_process_loop.simps [simp del]

text \<open>
  \<open>for_each_set_bit(hwirq, &irqs, IPI_MUX_NR_IRQS)\<close> starts at the first set bit. It
  reads \<open>IPI_MUX_NR_IRQS\<close> bits from the one-word local \<open>irqs\<close>: with more than
  \<open>BITS_PER_LONG\<close> of them the C reads past the variable, and the model stops with
  \<open>None\<close>.
\<close>

definition for_each_set_bit_dispatch :: "nat \<Rightarrow> ulong \<Rightarrow> nat \<Rightarrow> kstate \<Rightarrow> kstate option" where
  "for_each_set_bit_dispatch this_cpu irqs nbits s =
     (if BITS_PER_LONG < nbits then None
      else Some (ipi_mux_process_loop this_cpu irqs nbits (find_next_bit irqs nbits 0) s))"

definition call_ipi_mux_clear :: "kstate \<Rightarrow> kstate option" where
  "call_ipi_mux_clear s =
     (case ipi_mux_ops s of
        None \<Rightarrow> None
      | Some ops \<Rightarrow>
          (case ipi_mux_clear ops of
             None \<Rightarrow> Some s
           | Some f \<Rightarrow> Some (emit (Ev_ipi_mux_clear f (ipi_mux_parent_virq s)) s)))"

text \<open>
  \<open>ipi_mux_process\<close>, run on \<open>this_cpu\<close> with \<open>IPI_MUX_NR_IRQS = nr_irqs\<close>: clear the
  parent IPI when the backend can, barrier, exchange the word of this CPU with zero,
  return when the snapshot is empty, else dispatch every set bit.
\<close>

definition ipi_mux_process :: "nat \<Rightarrow> nat \<Rightarrow> kstate \<Rightarrow> kstate option" where
  "ipi_mux_process nr_irqs this_cpu s =
     (case call_ipi_mux_clear s of
        None \<Rightarrow> None
      | Some s1 \<Rightarrow>
          (let (irqs, s2) = xchg_percpu this_cpu 0 (smp_mb s1)
           in if irqs = 0 then Some s2
              else for_each_set_bit_dispatch this_cpu irqs nr_irqs s2))"

text \<open>
  \<open>ipi_mux_handler\<close>, the chained handler of the parent IPI: the drain between
  \<open>chained_irq_enter\<close> and \<open>chained_irq_exit\<close>, two calls into the parent's chip
  that the model records.
\<close>

definition ipi_mux_handler :: "nat \<Rightarrow> nat \<Rightarrow> kstate \<Rightarrow> kstate option" where
  "ipi_mux_handler nr_irqs this_cpu s =
     (case ipi_mux_process nr_irqs this_cpu (emit (Ev_chained_irq_enter this_cpu) s) of
        None \<Rightarrow> None
      | Some s' \<Rightarrow> Some (emit (Ev_chained_irq_exit this_cpu) s'))"

section \<open>CPU hotplug callbacks\<close>

text \<open>
  Modelled from the spec: the trigger type configured for an interrupt.
\<close>

definition irq_get_trigger_type :: "32 word \<Rightarrow> kstate \<Rightarrow> nat" where
  "irq_get_trigger_type irq s = irq_trigger_type s irq"

text \<open>
  Modelled from the spec: enabling the reception of an interrupt on a CPU with a trigger
  type. \<open>enable_percpu_irq\<close> acts on the CPU that calls it.
\<close>

definition enable_percpu_irq :: "nat \<Rightarrow> 32 word \<Rightarrow> nat \<Rightarrow> kstate \<Rightarrow> kstate" where
  "enable_percpu_irq this_cpu irq type s =
     emit (Ev_enable_percpu_irq this_cpu irq type)
       (s\<lparr>percpu_irq_enabled :=
            (percpu_irq_enabled s)(this_cpu := (percpu_irq_enabled s this_cpu)(irq \<mapsto> type))\<rparr>)"

text \<open>
  Modelled from the spec: disabling the reception of an interrupt on a CPU.
  \<open>disable_percpu_irq\<close> acts on the CPU that calls it.
\<close>

definition disable_percpu_irq :: "nat \<Rightarrow> 32 word \<Rightarrow> kstate \<Rightarrow> kstate" where
  "disable_percpu_irq this_cpu irq s =
     emit (Ev_disable_percpu_irq this_cpu irq)
       (s\<lparr>percpu_irq_enabled :=
            (percpu_irq_enabled s)(this_cpu := (percpu_irq_enabled s this_cpu)(irq := None))\<rparr>)"

text \<open>
  The two callbacks. The hotplug core runs them on the CPU that comes up or goes down,
  which is their argument; the C does not read it and acts on the CPU it runs on.
\<close>

definition ipi_mux_dying_cpu :: "nat \<Rightarrow> kstate \<Rightarrow> int \<times> kstate" where
  "ipi_mux_dying_cpu cpu s = (0, disable_percpu_irq cpu (ipi_mux_parent_virq s) s)"

definition ipi_mux_starting_cpu :: "nat \<Rightarrow> kstate \<Rightarrow> int \<times> kstate" where
  "ipi_mux_starting_cpu cpu s =
     (0, enable_percpu_irq cpu (ipi_mux_parent_virq s)
           (irq_get_trigger_type (ipi_mux_parent_virq s) s) s)"

fun invoke_hook :: "hook \<Rightarrow> nat \<Rightarrow> kstate \<Rightarrow> int \<times> kstate" where
  "invoke_hook Hook_ipi_mux_starting_cpu cpu s = ipi_mux_starting_cpu cpu s"
| "invoke_hook Hook_ipi_mux_dying_cpu cpu s = ipi_mux_dying_cpu cpu s"

section \<open>The domain callbacks\<close>

definition IRQ_TYPE_NONE :: nat where
  "IRQ_TYPE_NONE = 0"

text \<open>
  Modelled from the spec: the translation of a one-cell specifier, by which the mapping
  of logical index to virtual line starts at the index given and is contiguous.
  \<open>irq_domain_translate_onecell\<close>: \<open>-EINVAL\<close> without a parameter, else the first
  parameter as hardware interrupt number and no trigger type. The parameters are a list
  here, so a specifier that announces a parameter it does not hold is refused as well.
\<close>

definition irq_domain_translate_onecell :: "irq_fwspec \<Rightarrow> int + nat \<times> nat" where
  "irq_domain_translate_onecell fwspec =
     (if param_count fwspec < 1 \<or> param fwspec = [] then Inl (- EINVAL)
      else Inr (param fwspec ! 0, IRQ_TYPE_NONE))"

text \<open>
  \<open>ipi_mux_domain_map\<close> binds one Linux interrupt to one hardware interrupt number of
  the domain, with \<open>ipi_mux_chip\<close> and the per-CPU flow handler, and returns 0. The
  model keeps the binding in the reverse map, where the dispatch looks it up.
\<close>

definition ipi_mux_domain_map :: "irq_domain \<Rightarrow> nat \<Rightarrow> nat \<Rightarrow> int \<times> irq_domain" where
  "ipi_mux_domain_map d irq hwirq = (0, d\<lparr>revmap := (revmap d)(hwirq \<mapsto> irq)\<rparr>)"

function ipi_mux_domain_alloc_loop ::
  "irq_domain \<Rightarrow> nat \<Rightarrow> nat \<Rightarrow> nat \<Rightarrow> nat \<Rightarrow> int \<times> irq_domain" where
  "ipi_mux_domain_alloc_loop d virq hwirq nr_irqs i =
     (if i < nr_irqs
      then (case ipi_mux_domain_map d (virq + i) (hwirq + i) of
              (ret, d') \<Rightarrow>
                if ret \<noteq> 0 then (ret, d')
                else ipi_mux_domain_alloc_loop d' virq hwirq nr_irqs (i + 1))
      else (0, d))"
  by pat_completeness auto
termination
  by (relation "measure (\<lambda>(d, virq, hwirq, nr_irqs, i). nr_irqs - i)") auto

declare ipi_mux_domain_alloc_loop.simps [simp del]

definition ipi_mux_domain_alloc ::
  "irq_domain \<Rightarrow> nat \<Rightarrow> nat \<Rightarrow> irq_fwspec \<Rightarrow> int \<times> irq_domain" where
  "ipi_mux_domain_alloc d virq nr_irqs fwspec =
     (case irq_domain_translate_onecell fwspec of
        Inl ret \<Rightarrow> (ret, d)
      | Inr (hwirq, type) \<Rightarrow> ipi_mux_domain_alloc_loop d virq hwirq nr_irqs 0)"

section \<open>Creation\<close>

text \<open>
  The host calls that \<open>ipi_mux_create\<close> makes. What the kernel's allocators answer is
  not decided by the driver, so it is an input: \<open>kzalloc\<close> is the address of the new
  domain (\<open>None\<close> when memory is short) and \<open>descs\<close> the first of the interrupt
  descriptors allocated (a negative errno when there are none).
\<close>

text \<open>
  Modelled from the spec: the allocation of the line mapping, which can fail.
  \<open>irq_domain_add_linear\<close> registers an empty domain of the given size at the new
  address, or returns \<open>NULL\<close>.
\<close>

definition irq_domain_add_linear ::
  "domain_ptr option \<Rightarrow> nat \<Rightarrow> kstate \<Rightarrow> domain_ptr option \<times> kstate" where
  "irq_domain_add_linear kzalloc nbits s =
     (case kzalloc of
        None \<Rightarrow> (None, s)
      | Some p \<Rightarrow>
          (Some p,
           s\<lparr>irq_domains := (irq_domains s)(p \<mapsto> \<lparr>revmap_size = nbits, revmap = Map.empty\<rparr>)\<rparr>))"

text \<open>
  Modelled from the spec: the allocation of the virtual lines, which can fail, and
  which rolls its partial allocations back when it does. \<open>__irq_domain_alloc_irqs\<close>
  allocates the descriptors and runs the domain's \<open>alloc\<close> callback, which is
  \<open>ipi_mux_domain_alloc\<close>; when either fails it returns the error and leaves the
  domain as it was. (For an address that holds no domain, which \<open>ipi_mux_create\<close>
  never passes, the model answers \<open>-EINVAL\<close>.)
\<close>

definition irq_domain_alloc_irqs ::
  "int \<Rightarrow> domain_ptr \<Rightarrow> nat \<Rightarrow> irq_fwspec \<Rightarrow> kstate \<Rightarrow> int \<times> kstate" where
  "irq_domain_alloc_irqs descs domain nr_irqs fwspec s =
     (if descs < 0 then (descs, s)
      else case irq_domains s domain of
             None \<Rightarrow> (- EINVAL, s)
           | Some d \<Rightarrow>
               (case ipi_mux_domain_alloc d (nat descs) nr_irqs fwspec of
                  (ret, d') \<Rightarrow>
                    if ret < 0 then (ret, s)
                    else (descs, s\<lparr>irq_domains := (irq_domains s)(domain \<mapsto> d')\<rparr>)))"

text \<open>
  Modelled from the spec: the rollback of the mapping. \<open>irq_domain_remove\<close>
  unregisters the domain and frees it.
\<close>

definition irq_domain_remove :: "domain_ptr \<Rightarrow> kstate \<Rightarrow> kstate" where
  "irq_domain_remove domain s = s\<lparr>irq_domains := (irq_domains s)(domain := None)\<rparr>"

text \<open>
  Modelled from the spec: the installation of the controller as sub-handler of the
  physical interrupt. \<open>irq_set_chained_handler(irq, ipi_mux_handler)\<close>.
\<close>

definition irq_set_chained_handler :: "32 word \<Rightarrow> kstate \<Rightarrow> kstate" where
  "irq_set_chained_handler irq s =
     emit (Ev_irq_set_chained_handler irq) (s\<lparr>chained_handler := (chained_handler s)(irq := True)\<rparr>)"

text \<open>
  Modelled from the spec: the registration of the lifecycle hooks.
  \<open>cpuhp_setup_state\<close> records the state with its two callbacks; the C ignores what it
  returns, and the model has it succeed.
\<close>

definition cpuhp_setup_state :: "string \<Rightarrow> hook \<Rightarrow> hook \<Rightarrow> kstate \<Rightarrow> kstate" where
  "cpuhp_setup_state name startup teardown s =
     emit (Ev_cpuhp_setup_state name)
       (s\<lparr>cpuhp_states := (name, startup, teardown) # cpuhp_states s\<rparr>)"

text \<open>
  \<open>ipi_mux_create\<close>, with \<open>IPI_MUX_NR_IRQS = nr_irqs\<close>. The result is the \<open>int\<close> the
  C returns, with the state after the call.
\<close>

definition ipi_mux_create ::
  "nat \<Rightarrow> domain_ptr option \<Rightarrow> int \<Rightarrow> 32 word \<Rightarrow> ipi_mux_ops_t option \<Rightarrow> kstate
     \<Rightarrow> int \<times> kstate" where
  "ipi_mux_create nr_irqs kzalloc descs parent_virq ops s =
     (if ipi_mux_domain s \<noteq> None \<or> ops = None
         \<or> (case ops of None \<Rightarrow> True | Some o1 \<Rightarrow> ipi_mux_send o1 = None)
      then (0, s)
      else case irq_domain_add_linear kzalloc nr_irqs s of
             (None, s1) \<Rightarrow> (0, pr_err ''unable to add IPI Mux domain'' s1)
           | (Some domain, s1) \<Rightarrow>
               (case irq_domain_alloc_irqs descs domain nr_irqs
                       \<lparr>param_count = 1, param = [0]\<rparr> s1 of
                  (virq, s2) \<Rightarrow>
                    if virq \<le> 0
                    then (virq,
                          irq_domain_remove domain
                            (pr_err ''unable to alloc IRQs from IPI Mux domain'' s2))
                    else
                      (let s3 = s2\<lparr>ipi_mux_domain := Some domain,
                                      ipi_mux_parent_virq := parent_virq,
                                      ipi_mux_ops := ops\<rparr>
                       in (virq,
                           if 0 < parent_virq
                           then cpuhp_setup_state ''irqchip/ipi-mux:starting''
                                  Hook_ipi_mux_starting_cpu Hook_ipi_mux_dying_cpu
                                  (irq_set_chained_handler parent_virq s3)
                           else s3))))"

text \<open>
  The state at boot: the driver's variables are zero-initialised statics, nothing is
  registered, and the log is empty.
\<close>

definition boot_state :: kstate where
  "boot_state =
     \<lparr>ipi_mux_parent_virq = 0, ipi_mux_domain = None, ipi_mux_ops = None,
      ipi_mux_bits = (\<lambda>cpu. 0), irq_domains = Map.empty,
      chained_handler = (\<lambda>irq. False), cpuhp_states = [],
      percpu_irq_enabled = (\<lambda>cpu. Map.empty), irq_trigger_type = (\<lambda>irq. 0),
      klog = []\<rparr>"

section \<open>Every entry point of the driver\<close>

text \<open>\<open>ipi_mux_dummy\<close>, the mask and unmask callback of the chip, does nothing.\<close>

definition ipi_mux_dummy :: "kstate \<Rightarrow> kstate" where
  "ipi_mux_dummy s = s"

text \<open>
  The calls that can reach the driver: the chip callbacks, the drain (direct or through
  the chained handler), the two hotplug callbacks and the creation.
\<close>

datatype operation =
    Op_dummy
  | Op_send_mask nat cpumask
  | Op_process nat
  | Op_handler nat
  | Op_starting_cpu nat
  | Op_dying_cpu nat
  | Op_create "domain_ptr option" int "32 word" "ipi_mux_ops_t option"

fun perform :: "nat \<Rightarrow> operation \<Rightarrow> kstate \<Rightarrow> kstate option" where
  "perform nr_irqs Op_dummy s = Some (ipi_mux_dummy s)"
| "perform nr_irqs (Op_send_mask hwirq msk) s = ipi_mux_send_mask hwirq msk s"
| "perform nr_irqs (Op_process cpu) s = ipi_mux_process nr_irqs cpu s"
| "perform nr_irqs (Op_handler cpu) s = ipi_mux_handler nr_irqs cpu s"
| "perform nr_irqs (Op_starting_cpu cpu) s = Some (snd (ipi_mux_starting_cpu cpu s))"
| "perform nr_irqs (Op_dying_cpu cpu) s = Some (snd (ipi_mux_dying_cpu cpu s))"
| "perform nr_irqs (Op_create kzalloc descs parent_virq ops) s =
     Some (snd (ipi_mux_create nr_irqs kzalloc descs parent_virq ops s))"

section \<open>Send and drain, step by step\<close>








section \<open>Reading the state and the log\<close>

text \<open>
  The pending words after a bit-set on each CPU of a list, the mapping that a successful
  creation installs, and the state it leaves, without and with the registrations of
  chained mode.
\<close>

definition set_bit_cpus :: "nat \<Rightarrow> nat list \<Rightarrow> (nat \<Rightarrow> ulong) \<Rightarrow> nat \<Rightarrow> ulong" where
  "set_bit_cpus hwirq cpus bits =
     (\<lambda>cpu. if cpu \<in> set cpus then set_bit hwirq (bits cpu) else bits cpu)"

definition linear_revmap :: "nat \<Rightarrow> nat \<Rightarrow> nat \<Rightarrow> nat option" where
  "linear_revmap virq nr_irqs hwirq = (if hwirq < nr_irqs then Some (virq + hwirq) else None)"

definition created :: "nat \<Rightarrow> domain_ptr \<Rightarrow> int \<Rightarrow> 32 word \<Rightarrow> ipi_mux_ops_t \<Rightarrow> kstate \<Rightarrow> kstate" where
  "created nr_irqs p descs parent_virq ops s =
     s\<lparr>ipi_mux_domain := Some p, ipi_mux_parent_virq := parent_virq, ipi_mux_ops := Some ops,
       irq_domains := (irq_domains s)
          (p \<mapsto> \<lparr>revmap_size = nr_irqs, revmap = linear_revmap (nat descs) nr_irqs\<rparr>)\<rparr>"

definition chained :: "32 word \<Rightarrow> kstate \<Rightarrow> kstate" where
  "chained parent_virq s =
     s\<lparr>chained_handler := (chained_handler s)(parent_virq := True),
       cpuhp_states := (''irqchip/ipi-mux:starting'', Hook_ipi_mux_starting_cpu,
                        Hook_ipi_mux_dying_cpu) # cpuhp_states s,
       klog := klog s @ [Ev_irq_set_chained_handler parent_virq,
                         Ev_cpuhp_setup_state ''irqchip/ipi-mux:starting'']\<rparr>"

text \<open>The set bits of a snapshot below \<open>nbits\<close>, in ascending order.\<close>

definition set_bits :: "ulong \<Rightarrow> nat \<Rightarrow> nat list" where
  "set_bits irqs nbits = filter (bit irqs) [0..<nbits]"

text \<open>What the loop body logs for one hardware interrupt number.\<close>

definition dispatch_events :: "kstate \<Rightarrow> nat \<Rightarrow> nat \<Rightarrow> event list" where
  "dispatch_events s this_cpu hwirq =
     (case irq_resolve_mapping (ipi_mux_domain s) hwirq s of
        None \<Rightarrow> [Ev_generic_handle_domain_irq this_cpu hwirq None, Ev_pr_warn_ratelimited hwirq]
      | Some virq \<Rightarrow> [Ev_generic_handle_domain_irq this_cpu hwirq (Some virq)])"

text \<open>What the head of the drain logs: the backend's clear when there is one.\<close>

definition clear_events :: "ipi_mux_ops_t \<Rightarrow> 32 word \<Rightarrow> event list" where
  "clear_events ops virq =
     (case ipi_mux_clear ops of None \<Rightarrow> [] | Some f \<Rightarrow> [Ev_ipi_mux_clear f virq])"

definition drain_events :: "ipi_mux_ops_t \<Rightarrow> nat \<Rightarrow> nat \<Rightarrow> kstate \<Rightarrow> event list" where
  "drain_events ops nr_irqs this_cpu s =
     clear_events ops (ipi_mux_parent_virq s)
       @ [Ev_smp_mb, Ev_xchg this_cpu (ipi_mux_bits s this_cpu)]
       @ concat (map (dispatch_events s this_cpu) (set_bits (ipi_mux_bits s this_cpu) nr_irqs))"

text \<open>
  The hardware interrupt numbers that a CPU dispatched, in the order of the log, and the
  snapshots that its exchanges returned.
\<close>

fun dispatched_hwirqs :: "nat \<Rightarrow> event list \<Rightarrow> nat list" where
  "dispatched_hwirqs cpu [] = []"
| "dispatched_hwirqs cpu (Ev_generic_handle_domain_irq c hwirq found # es) =
     (if c = cpu then hwirq # dispatched_hwirqs cpu es else dispatched_hwirqs cpu es)"
| "dispatched_hwirqs cpu (e # es) = dispatched_hwirqs cpu es"

definition dispatch_count :: "nat \<Rightarrow> nat \<Rightarrow> event list \<Rightarrow> nat" where
  "dispatch_count cpu hwirq es = count_list (dispatched_hwirqs cpu es) hwirq"

fun xchg_snapshots :: "nat \<Rightarrow> event list \<Rightarrow> ulong list" where
  "xchg_snapshots cpu [] = []"
| "xchg_snapshots cpu (Ev_xchg c irqs # es) =
     (if c = cpu then irqs # xchg_snapshots cpu es else xchg_snapshots cpu es)"
| "xchg_snapshots cpu (e # es) = xchg_snapshots cpu es"



text \<open>One \<open>ipi_mux_process\<close> on each CPU of a list, one after the other.\<close>

fun drain_each :: "nat \<Rightarrow> nat list \<Rightarrow> kstate \<Rightarrow> kstate option" where
  "drain_each nr_irqs [] s = Some s"
| "drain_each nr_irqs (cpu # cpus) s =
     (case ipi_mux_process nr_irqs cpu s of
        None \<Rightarrow> None
      | Some s' \<Rightarrow> drain_each nr_irqs cpus s')"

section \<open>A controller to try things on\<close>

text \<open>
  A backend with both callbacks, and the state after it created a controller of eight
  lines in chained mode on parent interrupt 5, from boot.
\<close>

definition example_ops :: ipi_mux_ops_t where
  "example_ops = \<lparr>ipi_mux_clear = Some 1, ipi_mux_send = Some 2\<rparr>"

definition example_state :: kstate where
  "example_state = snd (ipi_mux_create 8 (Some 100) 16 5 (Some example_ops) boot_state)"

text \<open>
  The example controller with lines 3 and 5 pending on CPU 1, after line 3 was freed
  again (the domain's \<open>free\<close> callback), so that only line 5 has a mapping.
\<close>

definition pending_state :: kstate where
  "pending_state =
     example_state\<lparr>ipi_mux_bits := (\<lambda>cpu. 0)(1 := 40),
       irq_domains := (irq_domains example_state)
          (100 \<mapsto> \<lparr>revmap_size = 8, revmap = [5 \<mapsto> 21]\<rparr>)\<rparr>"



section \<open>Closed forms of the driver's functions\<close>

lemma emit_sel [simp]:
  "ipi_mux_parent_virq (emit e s) = ipi_mux_parent_virq s"
  "ipi_mux_domain (emit e s) = ipi_mux_domain s"
  "ipi_mux_ops (emit e s) = ipi_mux_ops s"
  "ipi_mux_bits (emit e s) = ipi_mux_bits s"
  "irq_domains (emit e s) = irq_domains s"
  "chained_handler (emit e s) = chained_handler s"
  "cpuhp_states (emit e s) = cpuhp_states s"
  "percpu_irq_enabled (emit e s) = percpu_irq_enabled s"
  "irq_trigger_type (emit e s) = irq_trigger_type s"
  "klog (emit e s) = klog s @ [e]"
  by (simp_all add: emit_def)

lemma set_bit_idem: "set_bit n (set_bit n (w::ulong)) = set_bit n w"
  by (rule bit_eqI) (auto simp: bit_set_bit_iff)

lemma send_loop_closed:
  "hwirq < BITS_PER_LONG \<Longrightarrow>
   ipi_mux_send_mask_loop hwirq cpus s =
     Some (s\<lparr>ipi_mux_bits := set_bit_cpus hwirq cpus (ipi_mux_bits s),
             klog := klog s @ map (Ev_set_bit hwirq) cpus\<rparr>)"
proof (induction cpus arbitrary: s)
  case Nil
  then show ?case by (simp add: set_bit_cpus_def)
next
  case (Cons cpu cpus)
  have "set_bit_cpus hwirq cpus ((ipi_mux_bits s)(cpu := set_bit hwirq (ipi_mux_bits s cpu)))
        = set_bit_cpus hwirq (cpu # cpus) (ipi_mux_bits s)"
    by (auto simp: set_bit_cpus_def fun_eq_iff set_bit_idem)
  with Cons show ?case
    by (simp add: set_bit_percpu_def emit_def)
qed

lemma send_mask_closed:
  assumes "hwirq < BITS_PER_LONG \<or> for_each_cpu msk = []"
    and "ipi_mux_ops s = Some ops" and "ipi_mux_send ops = Some f"
  shows "ipi_mux_send_mask hwirq msk s =
     Some (s\<lparr>ipi_mux_bits := set_bit_cpus hwirq (for_each_cpu msk) (ipi_mux_bits s),
             klog := klog s @ [Ev_smp_mb__before_atomic] @ map (Ev_set_bit hwirq) (for_each_cpu msk)
                      @ [Ev_smp_mb__after_atomic, Ev_ipi_mux_send f (ipi_mux_parent_virq s) msk]\<rparr>)"
proof (cases "for_each_cpu msk = []")
  case True
  with assms(2,3) show ?thesis
    by (simp add: ipi_mux_send_mask_def call_ipi_mux_send_def smp_mb__before_atomic_def
          smp_mb__after_atomic_def emit_def set_bit_cpus_def)
next
  case False
  with assms(1) have "hwirq < BITS_PER_LONG" by simp
  from send_loop_closed [OF this] assms(2,3) show ?thesis
    by (simp add: ipi_mux_send_mask_def call_ipi_mux_send_def smp_mb__before_atomic_def
          smp_mb__after_atomic_def emit_def)
qed

lemma find_next_bit_le: "find_next_bit addr nbits offset \<le> max nbits offset"
proof (induction addr nbits offset rule: find_next_bit.induct)
  case (1 addr nbits offset)
  then show ?case
    by (subst find_next_bit.simps) auto
qed

lemma find_next_bit_le_nbits: "offset \<le> nbits \<Longrightarrow> find_next_bit addr nbits offset \<le> nbits"
  using find_next_bit_le [of addr nbits offset] by simp

lemma find_next_bit_bit:
  "find_next_bit addr nbits offset < nbits \<Longrightarrow> bit addr (find_next_bit addr nbits offset)"
proof (induction addr nbits offset rule: find_next_bit.induct)
  case (1 addr nbits offset)
  from "1.prems" have "\<not> nbits \<le> offset"
    by (subst (asm) find_next_bit.simps) auto
  with 1 show ?case
    by (cases "bit addr offset") (simp_all add: find_next_bit.simps [of addr nbits offset])
qed

lemma find_next_bit_filter:
  "offset \<le> nbits \<Longrightarrow>
   filter (bit addr) [offset..<nbits] = filter (bit addr) [find_next_bit addr nbits offset..<nbits]"
proof (induction addr nbits offset rule: find_next_bit.induct)
  case (1 addr nbits offset)
  show ?case
  proof (cases "nbits \<le> offset \<or> bit addr offset")
    case True
    with "1.prems" show ?thesis
      by (auto simp: find_next_bit.simps [of addr nbits offset])
  next
    case False
    then have "filter (bit addr) [offset..<nbits] = filter (bit addr) [Suc offset..<nbits]"
      by (simp add: upt_conv_Cons)
    also from False "1.IH" have "\<dots> = filter (bit addr) [find_next_bit addr nbits (Suc offset)..<nbits]"
      by simp
    finally show ?thesis
      using False by (simp add: find_next_bit.simps [of addr nbits offset])
  qed
qed

lemma dispatch_events_cong:
  "ipi_mux_domain s' = ipi_mux_domain s \<Longrightarrow> irq_domains s' = irq_domains s \<Longrightarrow>
   dispatch_events s' = dispatch_events s"
  by (intro ext) (simp add: dispatch_events_def irq_resolve_mapping_def cong: option.case_cong)

lemma dispatch_events_update [simp]:
  "dispatch_events (s\<lparr>klog := l\<rparr>) = dispatch_events s"
  "dispatch_events (s\<lparr>ipi_mux_bits := b\<rparr>) = dispatch_events s"
  by (rule dispatch_events_cong; simp)+

lemma process_body_closed:
  "ipi_mux_process_body this_cpu hwirq s =
     s\<lparr>klog := klog s @ dispatch_events s this_cpu hwirq\<rparr>"
  by (simp add: ipi_mux_process_body_def generic_handle_domain_irq_def pr_warn_ratelimited_def
        dispatch_events_def emit_def EINVAL_def Let_def split: option.splits)

lemma process_loop_closed:
  "hwirq \<le> nbits \<Longrightarrow> (hwirq < nbits \<Longrightarrow> bit irqs hwirq) \<Longrightarrow>
   ipi_mux_process_loop this_cpu irqs nbits hwirq s =
     s\<lparr>klog := klog s @
       concat (map (dispatch_events s this_cpu) (filter (bit irqs) [hwirq..<nbits]))\<rparr>"
proof (induction this_cpu irqs nbits hwirq s rule: ipi_mux_process_loop.induct)
  case (1 this_cpu irqs nbits hwirq s)
  show ?case
  proof (cases "hwirq < nbits")
    case False
    then show ?thesis
      by (simp add: ipi_mux_process_loop.simps [of this_cpu irqs nbits hwirq s])
  next
    case True
    let ?k = "find_next_bit irqs nbits (hwirq + 1)"
    let ?s = "ipi_mux_process_body this_cpu hwirq s"
    from True have le: "?k \<le> nbits"
      by (intro find_next_bit_le_nbits) simp
    have b: "?k < nbits \<Longrightarrow> bit irqs ?k"
      by (rule find_next_bit_bit)
    from True "1.prems" have "filter (bit irqs) [hwirq..<nbits] = hwirq # filter (bit irqs) [hwirq + 1..<nbits]"
      by (simp add: upt_conv_Cons)
    also from True have "filter (bit irqs) [hwirq + 1..<nbits] = filter (bit irqs) [?k..<nbits]"
      by (intro find_next_bit_filter) simp
    finally have f: "filter (bit irqs) [hwirq..<nbits] = hwirq # filter (bit irqs) [?k..<nbits]" .
    have "ipi_mux_process_loop this_cpu irqs nbits hwirq s = ipi_mux_process_loop this_cpu irqs nbits ?k ?s"
      using True by (simp add: ipi_mux_process_loop.simps [of this_cpu irqs nbits hwirq s])
    also have "\<dots> = ?s\<lparr>klog := klog ?s @
       concat (map (dispatch_events ?s this_cpu) (filter (bit irqs) [?k..<nbits]))\<rparr>"
      using "1.IH" [OF True le b] by simp
    finally show ?thesis
      by (simp add: f process_body_closed)
  qed
qed

lemma for_each_set_bit_closed:
  "nbits \<le> BITS_PER_LONG \<Longrightarrow>
   for_each_set_bit_dispatch this_cpu irqs nbits s =
     Some (s\<lparr>klog := klog s @ concat (map (dispatch_events s this_cpu) (set_bits irqs nbits))\<rparr>)"
  using process_loop_closed [of "find_next_bit irqs nbits 0" nbits irqs this_cpu s]
    find_next_bit_filter [of 0 nbits irqs] find_next_bit_le_nbits [of 0 nbits irqs]
    find_next_bit_bit [of irqs nbits 0]
  by (simp add: for_each_set_bit_dispatch_def set_bits_def)

lemma set_bits_zero [simp]: "set_bits 0 nbits = []"
  by (simp add: set_bits_def)

lemma call_ipi_mux_clear_closed:
  "ipi_mux_ops s = Some ops \<Longrightarrow>
   call_ipi_mux_clear s = Some (s\<lparr>klog := klog s @ clear_events ops (ipi_mux_parent_virq s)\<rparr>)"
  by (simp add: call_ipi_mux_clear_def clear_events_def emit_def split: option.splits)

lemma process_closed:
  assumes "ipi_mux_ops s = Some ops"
    and "nr_irqs \<le> BITS_PER_LONG \<or> ipi_mux_bits s this_cpu = 0"
  shows "ipi_mux_process nr_irqs this_cpu s =
     Some (s\<lparr>ipi_mux_bits := (ipi_mux_bits s)(this_cpu := 0),
             klog := klog s @ drain_events ops nr_irqs this_cpu s\<rparr>)"
proof (cases "ipi_mux_bits s this_cpu = 0")
  case True
  then show ?thesis
    by (simp add: ipi_mux_process_def call_ipi_mux_clear_closed [OF assms(1)] xchg_percpu_def
          smp_mb_def drain_events_def emit_def)
next
  case False
  with assms(2) have n: "nr_irqs \<le> BITS_PER_LONG" by simp
  from False show ?thesis
    by (simp add: ipi_mux_process_def call_ipi_mux_clear_closed [OF assms(1)] xchg_percpu_def
          smp_mb_def drain_events_def emit_def for_each_set_bit_closed [OF n])
qed

lemma alloc_loop_closed:
  "i \<le> nr_irqs \<Longrightarrow>
   ipi_mux_domain_alloc_loop d virq hwirq nr_irqs i =
     (0, d\<lparr>revmap := (\<lambda>h. if hwirq + i \<le> h \<and> h < hwirq + nr_irqs
                          then Some (virq + (h - hwirq)) else revmap d h)\<rparr>)"
proof (induction d virq hwirq nr_irqs i rule: ipi_mux_domain_alloc_loop.induct)
  case (1 d virq hwirq nr_irqs i)
  show ?case
  proof (cases "i < nr_irqs")
    case False
    have "(\<lambda>h. if hwirq + nr_irqs \<le> h \<and> h < hwirq + nr_irqs
               then Some (virq + (h - hwirq)) else revmap d h) = revmap d"
      by (auto simp: fun_eq_iff)
    with False "1.prems" show ?thesis
      by (subst ipi_mux_domain_alloc_loop.simps) auto
  next
    case True
    let ?d = "d\<lparr>revmap := (revmap d)(hwirq + i \<mapsto> virq + i)\<rparr>"
    have m: "ipi_mux_domain_map d (virq + i) (hwirq + i) = (0, ?d)"
      by (simp add: ipi_mux_domain_map_def)
    from True have "ipi_mux_domain_alloc_loop d virq hwirq nr_irqs i =
        ipi_mux_domain_alloc_loop ?d virq hwirq nr_irqs (i + 1)"
      by (simp add: ipi_mux_domain_alloc_loop.simps [of d virq hwirq nr_irqs i] m)
    also from True have "\<dots> = (0, ?d\<lparr>revmap := (\<lambda>h. if hwirq + (i + 1) \<le> h \<and> h < hwirq + nr_irqs
                          then Some (virq + (h - hwirq)) else revmap ?d h)\<rparr>)"
      by (intro "1.IH" [OF True m [symmetric]]) simp_all
    also have "(\<lambda>h. if hwirq + (i + 1) \<le> h \<and> h < hwirq + nr_irqs
                          then Some (virq + (h - hwirq)) else revmap ?d h) =
        (\<lambda>h. if hwirq + i \<le> h \<and> h < hwirq + nr_irqs
                          then Some (virq + (h - hwirq)) else revmap d h)"
      using True by (auto simp: fun_eq_iff)
    finally show ?thesis by simp
  qed
qed

lemma domain_alloc_closed:
  "ipi_mux_domain_alloc \<lparr>revmap_size = n, revmap = Map.empty\<rparr> virq nr_irqs
      \<lparr>param_count = Suc 0, param = [0]\<rparr> =
     (0, \<lparr>revmap_size = n, revmap = linear_revmap virq nr_irqs\<rparr>)"
  by (simp add: ipi_mux_domain_alloc_def irq_domain_translate_onecell_def alloc_loop_closed
        linear_revmap_def fun_eq_iff)

lemma create_success:
  assumes "ipi_mux_domain s = None" and "ipi_mux_send ops = Some f" and "0 < descs"
  shows "ipi_mux_create nr_irqs (Some p) descs parent_virq (Some ops) s =
     (descs, if 0 < parent_virq then chained parent_virq (created nr_irqs p descs parent_virq ops s)
             else created nr_irqs p descs parent_virq ops s)"
  using assms
  by (simp add: ipi_mux_create_def irq_domain_add_linear_def irq_domain_alloc_irqs_def
        domain_alloc_closed created_def chained_def irq_set_chained_handler_def
        cpuhp_setup_state_def emit_def)

lemma example_state_eq:
  "example_state = chained 5 (created 8 100 16 5 example_ops boot_state)"
  by (simp add: example_state_def create_success [where f = 2] boot_state_def example_ops_def)

lemma example_state_sel [simp]:
  "ipi_mux_ops example_state = Some example_ops"
  "ipi_mux_parent_virq example_state = 5"
  "ipi_mux_domain example_state = Some 100"
  "ipi_mux_bits example_state = (\<lambda>cpu. 0)"
  "irq_domains example_state 100 = Some \<lparr>revmap_size = 8, revmap = linear_revmap 16 8\<rparr>"
  "klog example_state = [Ev_irq_set_chained_handler 5,
                         Ev_cpuhp_setup_state ''irqchip/ipi-mux:starting'']"
  by (simp_all add: example_state_eq chained_def created_def boot_state_def)

lemma example_ops_sel [simp]:
  "ipi_mux_send example_ops = Some 2" "ipi_mux_clear example_ops = Some 1"
  by (simp_all add: example_ops_def)

lemma for_each_cpu_example [simp]:
  "for_each_cpu [True, False, True] = [0, 2]"
  by (simp add: for_each_cpu_def upt_rec)

lemma for_each_cpu_set:
  "set (for_each_cpu msk) = {cpu. cpu < length msk \<and> msk ! cpu}"
  by (auto simp: for_each_cpu_def)

lemma for_each_cpu_distinct: "distinct (for_each_cpu msk)"
  by (simp add: for_each_cpu_def)

lemma for_each_cpu_sorted: "sorted_wrt (<) (for_each_cpu msk)"
  by (simp add: for_each_cpu_def sorted_wrt_filter)

lemma dispatched_hwirqs_append [simp]:
  "dispatched_hwirqs cpu (es @ es') = dispatched_hwirqs cpu es @ dispatched_hwirqs cpu es'"
  by (induction cpu es rule: dispatched_hwirqs.induct) simp_all

lemma xchg_snapshots_append [simp]:
  "xchg_snapshots cpu (es @ es') = xchg_snapshots cpu es @ xchg_snapshots cpu es'"
  by (induction cpu es rule: xchg_snapshots.induct) simp_all

lemma dispatched_hwirqs_dispatch_events [simp]:
  "dispatched_hwirqs cpu (dispatch_events s c hwirq) = (if c = cpu then [hwirq] else [])"
  by (simp add: dispatch_events_def split: option.splits)

lemma xchg_snapshots_dispatch_events [simp]:
  "xchg_snapshots cpu (dispatch_events s c hwirq) = []"
  by (simp add: dispatch_events_def split: option.splits)

lemma dispatched_hwirqs_clear_events [simp]:
  "dispatched_hwirqs cpu (clear_events ops virq) = []"
  by (simp add: clear_events_def split: option.splits)

lemma xchg_snapshots_clear_events [simp]:
  "xchg_snapshots cpu (clear_events ops virq) = []"
  by (simp add: clear_events_def split: option.splits)

lemma dispatched_hwirqs_dispatch_loop [simp]:
  "dispatched_hwirqs cpu (concat (map (dispatch_events s c) hs)) = (if c = cpu then hs else [])"
  by (induction hs) simp_all

lemma xchg_snapshots_dispatch_loop [simp]:
  "xchg_snapshots cpu (concat (map (dispatch_events s c) hs)) = []"
  by (induction hs) simp_all

lemma dispatched_hwirqs_drain_events [simp]:
  "dispatched_hwirqs cpu (drain_events ops nr_irqs c s) =
     (if c = cpu then set_bits (ipi_mux_bits s c) nr_irqs else [])"
  by (simp add: drain_events_def)

lemma xchg_snapshots_drain_events [simp]:
  "xchg_snapshots cpu (drain_events ops nr_irqs c s) =
     (if c = cpu then [ipi_mux_bits s c] else [])"
  by (simp add: drain_events_def)

lemma dispatched_hwirqs_set_bit [simp]:
  "dispatched_hwirqs cpu (map (Ev_set_bit hwirq) cpus) = []"
  by (induction cpus) simp_all

lemma xchg_snapshots_set_bit [simp]:
  "xchg_snapshots cpu (map (Ev_set_bit hwirq) cpus) = []"
  by (induction cpus) simp_all

lemma set_bits_sorted: "sorted_wrt (<) (set_bits irqs nbits)"
  by (simp add: set_bits_def sorted_wrt_filter)

lemma set_bits_set: "set (set_bits irqs nbits) = {n. n < nbits \<and> bit irqs n}"
  by (auto simp: set_bits_def)

lemma set_bits_distinct: "distinct (set_bits irqs nbits)"
  by (simp add: set_bits_def)

lemma count_list_distinct:
  "distinct xs \<Longrightarrow> count_list xs x = (if x \<in> set xs then 1 else 0)"
  by (induction xs) auto

lemma set_bits_count:
  "count_list (set_bits irqs nbits) n = (if n < nbits \<and> bit irqs n then 1 else 0)"
  by (simp add: count_list_distinct set_bits_distinct set_bits_set)

lemma pending_state_sel [simp]:
  "ipi_mux_ops pending_state = Some example_ops"
  "ipi_mux_parent_virq pending_state = 5"
  "ipi_mux_domain pending_state = Some 100"
  "ipi_mux_bits pending_state = (\<lambda>cpu. 0)(1 := 40)"
  "irq_domains pending_state 100 = Some \<lparr>revmap_size = 8, revmap = [5 \<mapsto> 21]\<rparr>"
  "klog pending_state = klog example_state"
  by (simp_all add: pending_state_def)

lemma set_bits_40 [simp]: "filter (bit (40 :: ulong)) [0..<8] = [3, 5]"
  by (simp add: upt_rec)

lemma drain_events_cong:
  "ipi_mux_parent_virq s' = ipi_mux_parent_virq s \<Longrightarrow>
   ipi_mux_bits s' cpu = ipi_mux_bits s cpu \<Longrightarrow>
   ipi_mux_domain s' = ipi_mux_domain s \<Longrightarrow> irq_domains s' = irq_domains s \<Longrightarrow>
   drain_events ops nr_irqs cpu s' = drain_events ops nr_irqs cpu s"
  by (simp add: drain_events_def dispatch_events_cong [of s' s])

lemma drain_each_closed:
  assumes "ipi_mux_ops s = Some ops" and "nr_irqs \<le> BITS_PER_LONG" and "distinct cpus"
  shows "drain_each nr_irqs cpus s =
     Some (s\<lparr>ipi_mux_bits := (\<lambda>cpu. if cpu \<in> set cpus then 0 else ipi_mux_bits s cpu),
             klog := klog s @ concat (map (\<lambda>cpu. drain_events ops nr_irqs cpu s) cpus)\<rparr>)"
  using assms(1,3)
proof (induction cpus arbitrary: s)
  case Nil
  then show ?case by simp
next
  case (Cons cpu cpus)
  let ?s = "s\<lparr>ipi_mux_bits := (ipi_mux_bits s)(cpu := 0),
              klog := klog s @ drain_events ops nr_irqs cpu s\<rparr>"
  have p: "ipi_mux_process nr_irqs cpu s = Some ?s"
    using Cons.prems assms(2) by (simp add: process_closed)
  have ih: "drain_each nr_irqs cpus ?s =
     Some (?s\<lparr>ipi_mux_bits := (\<lambda>c. if c \<in> set cpus then 0 else ipi_mux_bits ?s c),
             klog := klog ?s @ concat (map (\<lambda>c. drain_events ops nr_irqs c ?s) cpus)\<rparr>)"
    using Cons.prems by (intro Cons.IH) simp_all
  have m: "map (\<lambda>c. drain_events ops nr_irqs c ?s) cpus =
           map (\<lambda>c. drain_events ops nr_irqs c s) cpus"
  proof (rule map_cong [OF refl])
    fix c assume "c \<in> set cpus"
    with Cons.prems have "c \<noteq> cpu" by auto
    then show "drain_events ops nr_irqs c ?s = drain_events ops nr_irqs c s"
      by (intro drain_events_cong) simp_all
  qed
  have b: "(\<lambda>c. if c \<in> set cpus then 0 else ipi_mux_bits ?s c) =
           (\<lambda>c. if c \<in> set (cpu # cpus) then 0 else ipi_mux_bits s c)"
    by (auto simp: fun_eq_iff)
  show ?case
    unfolding drain_each.simps p option.case ih m b by simp
qed

lemma concat_map_single:
  "distinct xs \<Longrightarrow> x \<in> set xs \<Longrightarrow> concat (map (\<lambda>y. if y = x then zs else []) xs) = zs"
proof (induction xs)
  case Nil
  then show ?case by simp
next
  case (Cons a xs)
  show ?case
  proof (cases "a = x")
    case True
    with Cons.prems have "x \<notin> set xs" by simp
    then have "map (\<lambda>y. if y = x then zs else []) xs = map (\<lambda>y. []) xs"
      by (intro map_cong) auto
    with True show ?thesis by simp
  next
    case False
    with Cons show ?thesis by simp
  qed
qed

lemma dispatched_hwirqs_drains:
  assumes "distinct cpus" and "cpu \<in> set cpus"
  shows "dispatched_hwirqs cpu (concat (map (\<lambda>c. drain_events ops nr_irqs c s) cpus)) =
     set_bits (ipi_mux_bits s cpu) nr_irqs"
proof -
  have "dispatched_hwirqs cpu (concat (map (\<lambda>c. drain_events ops nr_irqs c s) cpus)) =
     concat (map (\<lambda>c. if c = cpu then set_bits (ipi_mux_bits s cpu) nr_irqs else []) cpus)"
    by (induction cpus) auto
  with assms show ?thesis
    by (simp add: concat_map_single)
qed

lemma send_loop_bits:
  "ipi_mux_send_mask_loop hwirq cpus s = Some s' \<Longrightarrow>
   bit (ipi_mux_bits s cpu) n \<Longrightarrow> bit (ipi_mux_bits s' cpu) n"
proof (induction cpus arbitrary: s)
  case Nil
  then show ?case by simp
next
  case (Cons c cpus)
  from Cons.prems(1) obtain s1 where 1: "set_bit_percpu hwirq c s = Some s1"
    and 2: "ipi_mux_send_mask_loop hwirq cpus s1 = Some s'"
    by (auto split: option.splits)
  from 1 Cons.prems(2) have "bit (ipi_mux_bits s1 cpu) n"
    by (auto simp: set_bit_percpu_def bit_set_bit_iff split: if_splits)
  with 2 show ?case by (rule Cons.IH)
qed

lemma send_loop_klog:
  "ipi_mux_send_mask_loop hwirq cpus s = Some s' \<Longrightarrow>
   klog s' = klog s @ map (Ev_set_bit hwirq) cpus"
proof (induction cpus arbitrary: s)
  case Nil
  then show ?case by simp
next
  case (Cons c cpus)
  from Cons.prems(1) obtain s1 where 1: "set_bit_percpu hwirq c s = Some s1"
    and 2: "ipi_mux_send_mask_loop hwirq cpus s1 = Some s'"
    by (auto split: option.splits)
  from 1 have "klog s1 = klog s @ [Ev_set_bit hwirq c]"
    by (auto simp: set_bit_percpu_def split: if_splits)
  with Cons.IH [OF 2] show ?case by simp
qed

lemma send_mask_bits:
  assumes "ipi_mux_send_mask hwirq msk s = Some s'" and "bit (ipi_mux_bits s cpu) n"
  shows "bit (ipi_mux_bits s' cpu) n"
proof -
  from assms(1) obtain s1 where
    1: "ipi_mux_send_mask_loop hwirq (for_each_cpu msk) (smp_mb__before_atomic s) = Some s1"
    and 2: "call_ipi_mux_send msk (smp_mb__after_atomic s1) = Some s'"
    by (auto simp: ipi_mux_send_mask_def split: option.splits)
  from assms(2) have "bit (ipi_mux_bits (smp_mb__before_atomic s) cpu) n"
    by (simp add: smp_mb__before_atomic_def)
  with 1 have "bit (ipi_mux_bits s1 cpu) n"
    by (rule send_loop_bits)
  with 2 show ?thesis
    by (auto simp: call_ipi_mux_send_def smp_mb__after_atomic_def split: option.splits)
qed

lemma send_mask_no_xchg:
  assumes "ipi_mux_send_mask hwirq msk s = Some s'"
  shows "xchg_snapshots cpu (drop (length (klog s)) (klog s')) = []"
proof -
  from assms(1) obtain s1 where
    1: "ipi_mux_send_mask_loop hwirq (for_each_cpu msk) (smp_mb__before_atomic s) = Some s1"
    and 2: "call_ipi_mux_send msk (smp_mb__after_atomic s1) = Some s'"
    by (auto simp: ipi_mux_send_mask_def split: option.splits)
  from send_loop_klog [OF 1] 2 show ?thesis
    by (auto simp: call_ipi_mux_send_def smp_mb__after_atomic_def smp_mb__before_atomic_def
          split: option.splits)
qed

lemma process_Some:
  assumes "ipi_mux_process nr_irqs this_cpu s = Some s'"
  obtains ops where "ipi_mux_ops s = Some ops"
    and "nr_irqs \<le> BITS_PER_LONG \<or> ipi_mux_bits s this_cpu = 0"
    and "s' = s\<lparr>ipi_mux_bits := (ipi_mux_bits s)(this_cpu := 0),
                klog := klog s @ drain_events ops nr_irqs this_cpu s\<rparr>"
proof -
  from assms obtain ops where o: "ipi_mux_ops s = Some ops"
    by (cases "ipi_mux_ops s") (auto simp: ipi_mux_process_def call_ipi_mux_clear_def)
  have n: "nr_irqs \<le> BITS_PER_LONG \<or> ipi_mux_bits s this_cpu = 0"
  proof (rule ccontr)
    assume "\<not> ?thesis"
    then have "ipi_mux_process nr_irqs this_cpu s = None"
      by (simp add: ipi_mux_process_def call_ipi_mux_clear_closed [OF o] xchg_percpu_def
            for_each_set_bit_dispatch_def smp_mb_def)
    with assms show False by simp
  qed
  from process_closed [OF o n] assms that [OF o n] show thesis by simp
qed

lemma create_bits:
  "ipi_mux_bits (snd (ipi_mux_create nr_irqs kzalloc descs parent_virq ops s)) = ipi_mux_bits s"
  by (simp add: ipi_mux_create_def irq_domain_add_linear_def irq_domain_alloc_irqs_def
        irq_domain_remove_def pr_err_def irq_set_chained_handler_def cpuhp_setup_state_def
        Let_def split: option.splits prod.splits)

lemma create_no_xchg:
  "xchg_snapshots cpu
     (drop (length (klog s)) (klog (snd (ipi_mux_create nr_irqs kzalloc descs parent_virq ops s)))) = []"
  by (auto simp: ipi_mux_create_def irq_domain_add_linear_def irq_domain_alloc_irqs_def
        irq_domain_remove_def pr_err_def irq_set_chained_handler_def cpuhp_setup_state_def
        Let_def split: option.splits prod.splits)

lemma process_effect:
  assumes "ipi_mux_process nr_irqs this_cpu s = Some s'"
  shows "ipi_mux_bits s' = (ipi_mux_bits s)(this_cpu := 0)"
    and "xchg_snapshots cpu (drop (length (klog s)) (klog s')) =
           (if this_cpu = cpu then [ipi_mux_bits s this_cpu] else [])"
  using assms by (auto elim!: process_Some)

lemma handler_effect:
  assumes "ipi_mux_handler nr_irqs this_cpu s = Some s'"
  shows "ipi_mux_bits s' = (ipi_mux_bits s)(this_cpu := 0)"
    and "xchg_snapshots cpu (drop (length (klog s)) (klog s')) =
           (if this_cpu = cpu then [ipi_mux_bits s this_cpu] else [])"
proof -
  let ?s = "emit (Ev_chained_irq_enter this_cpu) s"
  from assms obtain s1 where 1: "ipi_mux_process nr_irqs this_cpu ?s = Some s1"
    and 2: "s' = emit (Ev_chained_irq_exit this_cpu) s1"
    by (auto simp: ipi_mux_handler_def split: option.splits)
  from process_effect(1) [OF 1] 2 show "ipi_mux_bits s' = (ipi_mux_bits s)(this_cpu := 0)"
    by simp
  from 1 obtain ops where "s1 = ?s\<lparr>ipi_mux_bits := (ipi_mux_bits ?s)(this_cpu := 0),
                klog := klog ?s @ drain_events ops nr_irqs this_cpu ?s\<rparr>"
    by (rule process_Some)
  with 2 show "xchg_snapshots cpu (drop (length (klog s)) (klog s')) =
           (if this_cpu = cpu then [ipi_mux_bits s this_cpu] else [])"
    by simp
qed

lemma create_cases:
  obtains (failure) "fst (ipi_mux_create nr_irqs kzalloc descs parent_virq ops s) \<le> 0"
      and "cpuhp_states (snd (ipi_mux_create nr_irqs kzalloc descs parent_virq ops s)) = cpuhp_states s"
      and "chained_handler (snd (ipi_mux_create nr_irqs kzalloc descs parent_virq ops s)) = chained_handler s"
  | (success) p o1 where "0 < descs" and "kzalloc = Some p" and "ops = Some o1"
      and "ipi_mux_create nr_irqs kzalloc descs parent_virq ops s =
             (descs, if 0 < parent_virq then chained parent_virq (created nr_irqs p descs parent_virq o1 s)
                     else created nr_irqs p descs parent_virq o1 s)"
proof (cases "ipi_mux_domain s \<noteq> None \<or> ops = None \<or> (\<exists>o1. ops = Some o1 \<and> ipi_mux_send o1 = None)
              \<or> kzalloc = None \<or> descs \<le> 0")
  case True
  then show ?thesis
    by (intro failure)
       (auto simp: ipi_mux_create_def irq_domain_add_linear_def irq_domain_alloc_irqs_def
          domain_alloc_closed irq_domain_remove_def pr_err_def emit_def
          split: option.splits)
next
  case False
  then obtain p o1 f where "ipi_mux_domain s = None" "ops = Some o1" "ipi_mux_send o1 = Some f"
    "kzalloc = Some p" "0 < descs"
    by auto
  with create_success [of s o1 f descs nr_irqs p parent_virq] show ?thesis
    by (intro success) auto
qed












section \<open>Properties of the driver\<close>

subsection \<open>Send, then drain\<close>

text \<open>
  C1: take a controller with a backend bound, at most \<open>BITS_PER_LONG\<close> lines, and a line
  \<open>hwirq\<close> below \<open>nr_irqs\<close>. After \<open>ipi_mux_send_mask\<close> of that line to a target mask,
  let each CPU of the mask run \<open>ipi_mux_process\<close> once, in any order. Both return, and
  from the send to the end each CPU of the mask has dispatched the line exactly once.
\<close>

theorem send_then_drain_once:
  assumes "hwirq < nr_irqs" and "nr_irqs \<le> BITS_PER_LONG"
    and "ipi_mux_ops s = Some ops" and "ipi_mux_send ops = Some f"
    and "distinct cpus" and "set cpus = {cpu. cpu < length msk \<and> msk ! cpu}"
  shows "\<exists>s1 s2. ipi_mux_send_mask hwirq msk s = Some s1 \<and>
           drain_each nr_irqs cpus s1 = Some s2 \<and>
           (\<forall>cpu \<in> set cpus.
              dispatch_count cpu hwirq (drop (length (klog s)) (klog s2)) = 1)"
proof -
  let ?sent = "[Ev_smp_mb__before_atomic] @ map (Ev_set_bit hwirq) (for_each_cpu msk)
                 @ [Ev_smp_mb__after_atomic, Ev_ipi_mux_send f (ipi_mux_parent_virq s) msk]"
  let ?s1 = "s\<lparr>ipi_mux_bits := set_bit_cpus hwirq (for_each_cpu msk) (ipi_mux_bits s),
               klog := klog s @ ?sent\<rparr>"
  let ?s2 = "?s1\<lparr>ipi_mux_bits := (\<lambda>cpu. if cpu \<in> set cpus then 0 else ipi_mux_bits ?s1 cpu),
               klog := klog ?s1 @ concat (map (\<lambda>cpu. drain_events ops nr_irqs cpu ?s1) cpus)\<rparr>"
  from assms(1,2) have h: "hwirq < BITS_PER_LONG" by simp
  have 1: "ipi_mux_send_mask hwirq msk s = Some ?s1"
    using h assms(3,4) by (simp add: send_mask_closed)
  have 2: "drain_each nr_irqs cpus ?s1 = Some ?s2"
    using assms(2,3,5) by (intro drain_each_closed) simp_all
  have 3: "dispatch_count cpu hwirq (drop (length (klog s)) (klog ?s2)) = 1"
    if "cpu \<in> set cpus" for cpu
  proof -
    from that assms(6) have "cpu \<in> set (for_each_cpu msk)"
      by (simp add: for_each_cpu_set)
    then have "ipi_mux_bits ?s1 cpu = set_bit hwirq (ipi_mux_bits s cpu)"
      by (simp add: set_bit_cpus_def)
    with h have b: "bit (ipi_mux_bits ?s1 cpu) hwirq"
      by (simp add: bit_set_bit_iff BITS_PER_LONG_def)
    have "dispatched_hwirqs cpu (drop (length (klog s)) (klog ?s2)) =
        set_bits (ipi_mux_bits ?s1 cpu) nr_irqs"
      using assms(5) that by (simp add: dispatched_hwirqs_drains)
    then show ?thesis
      using b assms(1) by (simp add: dispatch_count_def set_bits_count)
  qed
  from 1 2 3 show ?thesis by blast
qed

theorem send_then_drain_once_witness:
  "\<exists>s1 s2. ipi_mux_send_mask 3 [True, False, True] example_state = Some s1 \<and>
     drain_each 8 [2, 0] s1 = Some s2 \<and>
     (\<forall>cpu \<in> set [2, 0].
        dispatch_count cpu 3 (drop (length (klog example_state)) (klog s2)) = 1)"
proof (rule send_then_drain_once [where ops = example_ops and f = 2])
  show "set [2, 0] = {cpu. cpu < length [True, False, True] \<and> [True, False, True] ! cpu}"
    by (auto simp: less_Suc_eq)
qed (simp_all add: BITS_PER_LONG_def)

subsection \<open>A send racing with a drain\<close>





subsection \<open>Clearing a pending word\<close>

text \<open>
  C3: whatever call reaches the driver, if it returns then each pending word is
  afterwards either zero or still holds every bit it held before: no call clears some
  set bits of a word and leaves others. A drain on a CPU (\<open>ipi_mux_process\<close>, direct or
  through \<open>ipi_mux_handler\<close>) leaves the word of that CPU zero after exactly one exchange
  on it, whose snapshot is the whole word as it was. Every other call, and a drain on
  another CPU, clears no bit of the word and makes no exchange on it.
\<close>

theorem pending_word_cleared_whole:
  assumes "perform nr_irqs op s = Some s'"
  shows "(\<forall>cpu. ipi_mux_bits s' cpu = 0 \<or>
                (\<forall>n. bit (ipi_mux_bits s cpu) n \<longrightarrow> bit (ipi_mux_bits s' cpu) n)) \<and>
         (\<forall>cpu. op = Op_process cpu \<or> op = Op_handler cpu \<longrightarrow>
                ipi_mux_bits s' cpu = 0 \<and>
                xchg_snapshots cpu (drop (length (klog s)) (klog s')) = [ipi_mux_bits s cpu]) \<and>
         (\<forall>cpu. op \<noteq> Op_process cpu \<and> op \<noteq> Op_handler cpu \<longrightarrow>
                (\<forall>n. bit (ipi_mux_bits s cpu) n \<longrightarrow> bit (ipi_mux_bits s' cpu) n) \<and>
                xchg_snapshots cpu (drop (length (klog s)) (klog s')) = [])"
proof (cases op)
  case Op_dummy
  with assms show ?thesis
    by (auto simp: ipi_mux_dummy_def)
next
  case (Op_send_mask hwirq msk)
  with assms have "ipi_mux_send_mask hwirq msk s = Some s'" by simp
  from send_mask_bits [OF this] send_mask_no_xchg [OF this] Op_send_mask show ?thesis
    by simp
next
  case (Op_process this_cpu)
  with assms have "ipi_mux_process nr_irqs this_cpu s = Some s'" by simp
  from process_effect [OF this] Op_process show ?thesis
    by simp
next
  case (Op_handler this_cpu)
  with assms have "ipi_mux_handler nr_irqs this_cpu s = Some s'" by simp
  from handler_effect [OF this] Op_handler show ?thesis
    by simp
next
  case (Op_starting_cpu c)
  with assms show ?thesis
    by (auto simp: ipi_mux_starting_cpu_def enable_percpu_irq_def)
next
  case (Op_dying_cpu c)
  with assms show ?thesis
    by (auto simp: ipi_mux_dying_cpu_def disable_percpu_irq_def)
next
  case (Op_create kzalloc descs parent_virq ops)
  with assms have "s' = snd (ipi_mux_create nr_irqs kzalloc descs parent_virq ops s)"
    by simp
  with Op_create show ?thesis
    by (simp add: create_bits create_no_xchg)
qed

theorem pending_word_cleared_whole_witness:
  "\<exists>s'. perform 8 (Op_process 1) pending_state = Some s' \<and>
     ipi_mux_bits s' 1 = 0 \<and>
     xchg_snapshots 1 (drop (length (klog pending_state)) (klog s')) = [40]"
proof -
  obtain s' where p: "perform 8 (Op_process 1) pending_state = Some s'"
    using process_closed [of pending_state example_ops 8 1]
    by (simp add: BITS_PER_LONG_def)
  from pending_word_cleared_whole [OF p] p show ?thesis
    by simp
qed

subsection \<open>The order of the send path\<close>

text \<open>
  C4: with a backend bound and a line that fits the pending word, \<open>ipi_mux_send_mask\<close>
  returns, and what it did is, in this order: the barrier before the atomic operations,
  one atomic bit-set of the line for each CPU of the target mask (each CPU of the mask
  once), the barrier after them, and then a single call of the backend's send with the
  parent interrupt and the same mask. After it the bit of the line is set in the word of
  every CPU of the mask, and every other word is as it was.
\<close>

theorem ipi_mux_send_mask_order:
  assumes "hwirq < BITS_PER_LONG"
    and "ipi_mux_ops s = Some ops" and "ipi_mux_send ops = Some f"
  shows "\<exists>s'. ipi_mux_send_mask hwirq msk s = Some s' \<and>
           klog s' = klog s @ [Ev_smp_mb__before_atomic]
                       @ map (Ev_set_bit hwirq) (for_each_cpu msk)
                       @ [Ev_smp_mb__after_atomic,
                          Ev_ipi_mux_send f (ipi_mux_parent_virq s) msk] \<and>
           distinct (for_each_cpu msk) \<and>
           set (for_each_cpu msk) = {cpu. cpu < length msk \<and> msk ! cpu} \<and>
           ipi_mux_bits s' =
             (\<lambda>cpu. if cpu < length msk \<and> msk ! cpu
                    then set_bit hwirq (ipi_mux_bits s cpu) else ipi_mux_bits s cpu)"
proof -
  have "set_bit_cpus hwirq (for_each_cpu msk) (ipi_mux_bits s) =
      (\<lambda>cpu. if cpu < length msk \<and> msk ! cpu
             then set_bit hwirq (ipi_mux_bits s cpu) else ipi_mux_bits s cpu)"
    by (simp add: set_bit_cpus_def for_each_cpu_set)
  with send_mask_closed [of hwirq msk s ops f] assms show ?thesis
    by (simp add: for_each_cpu_set for_each_cpu_distinct)
qed

theorem ipi_mux_send_mask_order_witness:
  "\<exists>s'. ipi_mux_send_mask 3 [True, False, True] example_state = Some s' \<and>
     klog s' = klog example_state @
       [Ev_smp_mb__before_atomic, Ev_set_bit 3 0, Ev_set_bit 3 2, Ev_smp_mb__after_atomic,
        Ev_ipi_mux_send 2 5 [True, False, True]] \<and>
     ipi_mux_bits s' 0 = 8 \<and> ipi_mux_bits s' 1 = 0 \<and> ipi_mux_bits s' 2 = 8"
  using ipi_mux_send_mask_order [of 3 example_state example_ops 2 "[True, False, True]"]
  by (auto simp: BITS_PER_LONG_def)

subsection \<open>Creation that fails\<close>

text \<open>
  C5: let \<open>ipi_mux_create\<close> be called when a controller exists already, or without a
  backend, or with a backend that has no send, or when the domain cannot be allocated,
  or when the interrupts cannot be (the address the allocator hands out for the domain
  being one not in use). Then it returns a value that is not positive, and the state
  after the call is the state before it but for the error message in the log: the
  driver's variables, the registered domains with their mappings, the chained handlers
  and the hotplug states are all as they were. The two allocation failures log one error
  each; the refusals at the entry log nothing.
\<close>

theorem ipi_mux_create_failure:
  assumes "ipi_mux_domain s \<noteq> None \<or> ops = None \<or> (\<exists>o1. ops = Some o1 \<and> ipi_mux_send o1 = None)
           \<or> kzalloc = None \<or> descs \<le> 0"
    and "\<forall>p. kzalloc = Some p \<longrightarrow> irq_domains s p = None"
  shows "\<exists>ret msgs. ipi_mux_create nr_irqs kzalloc descs parent_virq ops s =
             (ret, s\<lparr>klog := klog s @ msgs\<rparr>) \<and> ret \<le> 0 \<and>
           ret = (if ipi_mux_domain s \<noteq> None \<or> ops = None
                     \<or> (\<exists>o1. ops = Some o1 \<and> ipi_mux_send o1 = None) \<or> kzalloc = None then 0
                  else descs) \<and>
           msgs = (if ipi_mux_domain s \<noteq> None \<or> ops = None
                      \<or> (\<exists>o1. ops = Some o1 \<and> ipi_mux_send o1 = None) then []
                   else if kzalloc = None then [Ev_pr_err ''unable to add IPI Mux domain'']
                   else [Ev_pr_err ''unable to alloc IRQs from IPI Mux domain''])"
proof (cases "ipi_mux_domain s \<noteq> None \<or> ops = None
                \<or> (\<exists>o1. ops = Some o1 \<and> ipi_mux_send o1 = None)")
  case True
  then have "ipi_mux_create nr_irqs kzalloc descs parent_virq ops s = (0, s)"
    by (auto simp: ipi_mux_create_def)
  with True show ?thesis by auto
next
  case False
  then obtain o1 f where o: "ipi_mux_domain s = None" "ops = Some o1" "ipi_mux_send o1 = Some f"
    by auto
  show ?thesis
  proof (cases kzalloc)
    case None
    with o have "ipi_mux_create nr_irqs kzalloc descs parent_virq ops s =
        (0, s\<lparr>klog := klog s @ [Ev_pr_err ''unable to add IPI Mux domain'']\<rparr>)"
      by (simp add: ipi_mux_create_def irq_domain_add_linear_def pr_err_def emit_def)
    with o None show ?thesis by auto
  next
    case (Some p)
    with assms False have d: "descs \<le> 0" and fresh: "irq_domains s p = None"
      by auto
    from fresh have "(irq_domains s)(p := None) = irq_domains s"
      by (auto simp: fun_eq_iff)
    with o Some d have "ipi_mux_create nr_irqs kzalloc descs parent_virq ops s =
        (descs, s\<lparr>klog := klog s @ [Ev_pr_err ''unable to alloc IRQs from IPI Mux domain'']\<rparr>)"
      by (simp add: ipi_mux_create_def irq_domain_add_linear_def irq_domain_alloc_irqs_def
            domain_alloc_closed irq_domain_remove_def pr_err_def emit_def)
    with o Some d show ?thesis by auto
  qed
qed

theorem ipi_mux_create_failure_witness:
  "ipi_mux_create 8 (Some 100) (- 12) 5 (Some example_ops) boot_state =
     (- 12, boot_state\<lparr>klog := [Ev_pr_err ''unable to alloc IRQs from IPI Mux domain'']\<rparr>)"
  using ipi_mux_create_failure [of boot_state "Some example_ops" "Some 100" "- 12" 8 5]
  by (simp add: boot_state_def example_ops_def)

subsection \<open>Dispatch of every set bit\<close>

text \<open>
  C6: with a backend bound and at most \<open>BITS_PER_LONG\<close> lines, \<open>ipi_mux_process\<close>
  returns, and after the exchange it logs, for each set bit of the snapshot below
  \<open>nr_irqs\<close> in turn, the dispatch of that bit, followed by a rate-limited warning when
  the bit has no mapping. So every set bit is dispatched, whatever happened to the bits
  before it; a bit with a mapping reaches the interrupt it is mapped to, and a bit
  without one is warned about.
\<close>

theorem ipi_mux_process_dispatch_all:
  assumes "ipi_mux_ops s = Some ops" and "nr_irqs \<le> BITS_PER_LONG"
  shows "\<exists>s'. ipi_mux_process nr_irqs this_cpu s = Some s' \<and>
           klog s' = klog s @ clear_events ops (ipi_mux_parent_virq s)
             @ [Ev_smp_mb, Ev_xchg this_cpu (ipi_mux_bits s this_cpu)]
             @ concat (map (\<lambda>hwirq.
                  case irq_resolve_mapping (ipi_mux_domain s) hwirq s of
                    None \<Rightarrow> [Ev_generic_handle_domain_irq this_cpu hwirq None,
                             Ev_pr_warn_ratelimited hwirq]
                  | Some virq \<Rightarrow> [Ev_generic_handle_domain_irq this_cpu hwirq (Some virq)])
                (filter (bit (ipi_mux_bits s this_cpu)) [0..<nr_irqs])) \<and>
           (\<forall>hwirq < nr_irqs. bit (ipi_mux_bits s this_cpu) hwirq \<longrightarrow>
              dispatch_count this_cpu hwirq (drop (length (klog s)) (klog s')) = 1 \<and>
              Ev_generic_handle_domain_irq this_cpu hwirq
                (irq_resolve_mapping (ipi_mux_domain s) hwirq s) \<in> set (klog s') \<and>
              (irq_resolve_mapping (ipi_mux_domain s) hwirq s = None \<longrightarrow>
                 Ev_pr_warn_ratelimited hwirq \<in> set (klog s')))"
proof -
  let ?w = "ipi_mux_bits s this_cpu"
  let ?s' = "s\<lparr>ipi_mux_bits := (ipi_mux_bits s)(this_cpu := 0),
               klog := klog s @ drain_events ops nr_irqs this_cpu s\<rparr>"
  have p: "ipi_mux_process nr_irqs this_cpu s = Some ?s'"
    using assms by (simp add: process_closed)
  have l: "klog ?s' = klog s @ clear_events ops (ipi_mux_parent_virq s)
             @ [Ev_smp_mb, Ev_xchg this_cpu ?w]
             @ concat (map (dispatch_events s this_cpu) (set_bits ?w nr_irqs))"
    by (simp add: drain_events_def)
  have d: "dispatch_events s this_cpu = (\<lambda>hwirq.
                  case irq_resolve_mapping (ipi_mux_domain s) hwirq s of
                    None \<Rightarrow> [Ev_generic_handle_domain_irq this_cpu hwirq None,
                             Ev_pr_warn_ratelimited hwirq]
                  | Some virq \<Rightarrow> [Ev_generic_handle_domain_irq this_cpu hwirq (Some virq)])"
    by (simp add: dispatch_events_def fun_eq_iff)
  have e: "set (dispatch_events s this_cpu hwirq) \<subseteq> set (klog ?s')"
    if "hwirq < nr_irqs" "bit ?w hwirq" for hwirq
    using that by (auto simp: l set_bits_set)
  have "dispatch_count this_cpu hwirq (drop (length (klog s)) (klog ?s')) = 1 \<and>
        Ev_generic_handle_domain_irq this_cpu hwirq
          (irq_resolve_mapping (ipi_mux_domain s) hwirq s) \<in> set (klog ?s') \<and>
        (irq_resolve_mapping (ipi_mux_domain s) hwirq s = None \<longrightarrow>
           Ev_pr_warn_ratelimited hwirq \<in> set (klog ?s'))"
    if "hwirq < nr_irqs" "bit ?w hwirq" for hwirq
  proof -
    have "dispatch_count this_cpu hwirq (drop (length (klog s)) (klog ?s')) = 1"
      using that by (simp add: dispatch_count_def set_bits_count)
    moreover have "Ev_generic_handle_domain_irq this_cpu hwirq
          (irq_resolve_mapping (ipi_mux_domain s) hwirq s) \<in> set (dispatch_events s this_cpu hwirq)"
      by (simp add: dispatch_events_def split: option.splits)
    moreover have "irq_resolve_mapping (ipi_mux_domain s) hwirq s = None \<Longrightarrow>
        Ev_pr_warn_ratelimited hwirq \<in> set (dispatch_events s this_cpu hwirq)"
      by (simp add: dispatch_events_def)
    ultimately show ?thesis
      using e [OF that] by blast
  qed
  with p l show ?thesis
    unfolding d set_bits_def by blast
qed

theorem ipi_mux_process_dispatch_all_witness:
  "\<exists>s'. ipi_mux_process 8 1 pending_state = Some s' \<and>
     klog s' = klog pending_state @
       [Ev_ipi_mux_clear 1 5, Ev_smp_mb, Ev_xchg 1 40,
        Ev_generic_handle_domain_irq 1 3 None, Ev_pr_warn_ratelimited 3,
        Ev_generic_handle_domain_irq 1 5 (Some 21)]"
  using ipi_mux_process_dispatch_all [of pending_state example_ops 8 1]
  by (auto simp: BITS_PER_LONG_def clear_events_def irq_resolve_mapping_def)

subsection \<open>A drain with nothing pending\<close>

text \<open>
  C7: with a backend bound, \<open>ipi_mux_process\<close> on a CPU whose pending word is zero
  returns, leaves every pending word as it was (so this one zero), and logs the
  backend's clear when there is one, the barrier and the exchange with its empty
  snapshot, and nothing else: no dispatch, no warning, no error.
\<close>

theorem ipi_mux_process_spurious:
  assumes "ipi_mux_bits s this_cpu = 0" and "ipi_mux_ops s = Some ops"
  shows "\<exists>s'. ipi_mux_process nr_irqs this_cpu s = Some s' \<and>
           ipi_mux_bits s' = ipi_mux_bits s \<and>
           klog s' = klog s @ clear_events ops (ipi_mux_parent_virq s)
                       @ [Ev_smp_mb, Ev_xchg this_cpu 0] \<and>
           (\<forall>e \<in> set (drop (length (klog s)) (klog s')).
              (\<forall>c h r. e \<noteq> Ev_generic_handle_domain_irq c h r) \<and>
              (\<forall>h. e \<noteq> Ev_pr_warn_ratelimited h) \<and> (\<forall>m. e \<noteq> Ev_pr_err m))"
proof -
  from assms(1) have "(ipi_mux_bits s)(this_cpu := 0) = ipi_mux_bits s"
    by (auto simp: fun_eq_iff)
  with process_closed [of s ops nr_irqs this_cpu] assms show ?thesis
    by (auto simp: drain_events_def clear_events_def split: option.splits)
qed

theorem ipi_mux_process_spurious_witness:
  "\<exists>s'. ipi_mux_process 8 1 example_state = Some s' \<and>
     ipi_mux_bits s' = ipi_mux_bits example_state \<and>
     klog s' = klog example_state @ [Ev_ipi_mux_clear 1 5, Ev_smp_mb, Ev_xchg 1 0]"
  using ipi_mux_process_spurious [of example_state 1 example_ops 8]
  by (auto simp: clear_events_def)

subsection \<open>The hotplug callbacks\<close>

text \<open>
  C8: \<open>ipi_mux_create\<close> registers the hotplug state ``irqchip/ipi-mux:starting'', with
  \<open>ipi_mux_starting_cpu\<close> and \<open>ipi_mux_dying_cpu\<close> as its callbacks, and installs the
  chained handler on the parent interrupt, exactly when it succeeds (returns a positive
  value) with a parent interrupt above zero; the parent interrupt it records is then the
  one given. With the parent interrupt at zero, or when it fails, it registers no
  hotplug state and installs no chained handler. As long as the recorded parent
  interrupt is that one, the starting callback on a CPU returns 0 and enables the parent
  interrupt on that CPU with the trigger type configured for it, and the dying callback
  returns 0 and disables it there.
\<close>

theorem ipi_mux_create_hooks:
  assumes "ipi_mux_create nr_irqs kzalloc descs parent_virq ops s = (ret, s')"
  shows "(0 < ret \<and> 0 < parent_virq \<longrightarrow>
            cpuhp_states s' = (''irqchip/ipi-mux:starting'', Hook_ipi_mux_starting_cpu,
                               Hook_ipi_mux_dying_cpu) # cpuhp_states s \<and>
            chained_handler s' = (chained_handler s)(parent_virq := True) \<and>
            ipi_mux_parent_virq s' = parent_virq) \<and>
         (\<not> (0 < ret \<and> 0 < parent_virq) \<longrightarrow>
            cpuhp_states s' = cpuhp_states s \<and> chained_handler s' = chained_handler s) \<and>
         (\<forall>cpu t. ipi_mux_parent_virq t = parent_virq \<longrightarrow>
            invoke_hook Hook_ipi_mux_starting_cpu cpu t =
              (0, enable_percpu_irq cpu parent_virq (irq_trigger_type t parent_virq) t) \<and>
            percpu_irq_enabled (snd (invoke_hook Hook_ipi_mux_starting_cpu cpu t)) cpu parent_virq =
              Some (irq_trigger_type t parent_virq) \<and>
            invoke_hook Hook_ipi_mux_dying_cpu cpu t = (0, disable_percpu_irq cpu parent_virq t) \<and>
            percpu_irq_enabled (snd (invoke_hook Hook_ipi_mux_dying_cpu cpu t)) cpu parent_virq = None)"
proof -
  have hooks: "\<forall>cpu t. ipi_mux_parent_virq t = parent_virq \<longrightarrow>
            invoke_hook Hook_ipi_mux_starting_cpu cpu t =
              (0, enable_percpu_irq cpu parent_virq (irq_trigger_type t parent_virq) t) \<and>
            percpu_irq_enabled (snd (invoke_hook Hook_ipi_mux_starting_cpu cpu t)) cpu parent_virq =
              Some (irq_trigger_type t parent_virq) \<and>
            invoke_hook Hook_ipi_mux_dying_cpu cpu t = (0, disable_percpu_irq cpu parent_virq t) \<and>
            percpu_irq_enabled (snd (invoke_hook Hook_ipi_mux_dying_cpu cpu t)) cpu parent_virq = None"
    by (simp add: ipi_mux_starting_cpu_def ipi_mux_dying_cpu_def enable_percpu_irq_def
          disable_percpu_irq_def irq_get_trigger_type_def)
  have reg: "(0 < ret \<and> 0 < parent_virq \<longrightarrow>
            cpuhp_states s' = (''irqchip/ipi-mux:starting'', Hook_ipi_mux_starting_cpu,
                               Hook_ipi_mux_dying_cpu) # cpuhp_states s \<and>
            chained_handler s' = (chained_handler s)(parent_virq := True) \<and>
            ipi_mux_parent_virq s' = parent_virq) \<and>
         (\<not> (0 < ret \<and> 0 < parent_virq) \<longrightarrow>
            cpuhp_states s' = cpuhp_states s \<and> chained_handler s' = chained_handler s)"
  proof (cases rule: create_cases [of nr_irqs kzalloc descs parent_virq ops s])
    case failure
    with assms show ?thesis by simp
  next
    case (success p o1)
    with assms show ?thesis
      by (auto simp: chained_def created_def)
  qed
  from reg hooks show ?thesis by blast
qed

theorem ipi_mux_create_hooks_witness:
  "cpuhp_states example_state =
     [(''irqchip/ipi-mux:starting'', Hook_ipi_mux_starting_cpu, Hook_ipi_mux_dying_cpu)] \<and>
   chained_handler example_state 5 \<and>
   percpu_irq_enabled (snd (invoke_hook Hook_ipi_mux_starting_cpu 1 example_state)) 1 5 =
     Some (irq_trigger_type example_state 5) \<and>
   percpu_irq_enabled (snd (invoke_hook Hook_ipi_mux_dying_cpu 1 example_state)) 1 5 = None \<and>
   cpuhp_states (snd (ipi_mux_create 8 (Some 100) 16 0 (Some example_ops) boot_state)) = []"
proof -
  have 1: "ipi_mux_create 8 (Some 100) 16 5 (Some example_ops) boot_state = (16, example_state)"
    by (simp add: example_state_eq create_success [where f = 2] boot_state_def)
  have 2: "ipi_mux_create 8 (Some 100) 16 0 (Some example_ops) boot_state =
             (16, snd (ipi_mux_create 8 (Some 100) 16 0 (Some example_ops) boot_state))"
    by (simp add: create_success [where f = 2] boot_state_def)
  note chained = ipi_mux_create_hooks [OF 1]
  note explicit = ipi_mux_create_hooks [OF 2]
  from chained have "cpuhp_states example_state =
     [(''irqchip/ipi-mux:starting'', Hook_ipi_mux_starting_cpu, Hook_ipi_mux_dying_cpu)]"
    and "chained_handler example_state 5"
    by (simp_all add: boot_state_def)
  moreover have "ipi_mux_parent_virq example_state = 5"
    by simp
  from chained [THEN conjunct2, THEN conjunct2, rule_format, OF this, of 1]
  have "percpu_irq_enabled (snd (invoke_hook Hook_ipi_mux_starting_cpu 1 example_state)) 1 5 =
     Some (irq_trigger_type example_state 5)"
    and "percpu_irq_enabled (snd (invoke_hook Hook_ipi_mux_dying_cpu 1 example_state)) 1 5 = None"
    by blast+
  moreover from explicit
  have "cpuhp_states (snd (ipi_mux_create 8 (Some 100) 16 0 (Some example_ops) boot_state)) = []"
    by (simp add: boot_state_def)
  ultimately show ?thesis by simp
qed

subsection \<open>The order of the dispatches\<close>

text \<open>
  C9: with a backend bound and at most \<open>BITS_PER_LONG\<close> lines, \<open>ipi_mux_process\<close>
  returns, and the hardware interrupt numbers it dispatched on its CPU are, in the order
  of the dispatches, the set bits of the snapshot below \<open>nr_irqs\<close> in strictly ascending
  order.
\<close>

theorem ipi_mux_process_ascending:
  assumes "ipi_mux_ops s = Some ops" and "nr_irqs \<le> BITS_PER_LONG"
  shows "\<exists>s'. ipi_mux_process nr_irqs this_cpu s = Some s' \<and>
           dispatched_hwirqs this_cpu (drop (length (klog s)) (klog s')) =
             filter (bit (ipi_mux_bits s this_cpu)) [0..<nr_irqs] \<and>
           sorted_wrt (<) (dispatched_hwirqs this_cpu (drop (length (klog s)) (klog s')))"
  using process_closed [of s ops nr_irqs this_cpu] assms
    set_bits_sorted [of "ipi_mux_bits s this_cpu" nr_irqs]
  by (auto simp: set_bits_def)

theorem ipi_mux_process_ascending_witness:
  "\<exists>s'. ipi_mux_process 8 1 pending_state = Some s' \<and>
     dispatched_hwirqs 1 (drop (length (klog pending_state)) (klog s')) = [3, 5]"
  using ipi_mux_process_ascending [of pending_state example_ops 8 1]
  by (auto simp: BITS_PER_LONG_def)

subsection \<open>A send to no CPU\<close>

text \<open>
  C10: with a backend bound, \<open>ipi_mux_send_mask\<close> on a mask without a CPU, for any line,
  sets no bit (the state changes in its log only) and still calls the backend's send,
  once, with that empty mask, between the two barriers.
\<close>

theorem ipi_mux_send_mask_empty:
  assumes "\<forall>cpu < length msk. \<not> msk ! cpu"
    and "ipi_mux_ops s = Some ops" and "ipi_mux_send ops = Some f"
  shows "ipi_mux_send_mask hwirq msk s =
     Some (s\<lparr>klog := klog s @ [Ev_smp_mb__before_atomic, Ev_smp_mb__after_atomic,
                               Ev_ipi_mux_send f (ipi_mux_parent_virq s) msk]\<rparr>)"
proof -
  from assms(1) have e: "for_each_cpu msk = []"
    by (simp add: for_each_cpu_def filter_empty_conv)
  then have "set_bit_cpus hwirq (for_each_cpu msk) (ipi_mux_bits s) = ipi_mux_bits s"
    by (simp add: set_bit_cpus_def)
  with send_mask_closed [of hwirq msk s ops f] e assms(2,3) show ?thesis
    by simp
qed

theorem ipi_mux_send_mask_empty_witness:
  "ipi_mux_send_mask 70 [False, False] example_state =
     Some (example_state\<lparr>klog := klog example_state @
       [Ev_smp_mb__before_atomic, Ev_smp_mb__after_atomic,
        Ev_ipi_mux_send 2 5 [False, False]]\<rparr>)"
  using ipi_mux_send_mask_empty [of "[False, False]" example_state example_ops 2 70]
  by (simp add: less_Suc_eq)

end
